theory Spec2Isabelle
  imports Main
begin

section \<open>tsh: the job table\<close>

text \<open>
  The shell of \<^verbatim>\<open>tsh.c\<close> keeps its jobs in a global array \<^verbatim>\<open>jobs[MAXJOBS]\<close> of
  \<^verbatim>\<open>struct job_t\<close> and a global counter \<^verbatim>\<open>nextjid\<close>. The array is a list of
  records here, a pointer into it (\<^verbatim>\<open>struct job_t *\<close>) the index of the slot, and
  \<^verbatim>\<open>NULL\<close> is \<open>None\<close>. The C \<^verbatim>\<open>int\<close> and \<^verbatim>\<open>pid_t\<close> values are
  integers: the arithmetic of the job table is \<^verbatim>\<open>nextjid++\<close> and
  \<^verbatim>\<open>maxjid(jobs) + 1\<close>, which stay far inside the 32-bit range on every run a
  machine can perform. The diagnostics of the \<^verbatim>\<open>LOG...\<close> macros and of
  \<^verbatim>\<open>if (verbose)\<close> are printed only under the flag \<^verbatim>\<open>-v\<close>; the model is the
  shell with \<^verbatim>\<open>verbose = 0\<close>, its initial value. Signal masks are not part of the
  state: a run of a signal handler, which blocks every signal, and a call of a helper
  routine of the job list are one step each.
\<close>

abbreviation (input) MAXLINE :: nat where "MAXLINE \<equiv> 1024"
abbreviation (input) MAXARGS :: nat where "MAXARGS \<equiv> 128"
abbreviation (input) MAXJOBS :: nat where "MAXJOBS \<equiv> 16"

abbreviation (input) UNDEF :: int where "UNDEF \<equiv> 0"
abbreviation (input) FG :: int where "FG \<equiv> 1"
abbreviation (input) BG :: int where "BG \<equiv> 2"
abbreviation (input) ST :: int where "ST \<equiv> 3"

record job_t =
  pid :: int
  jid :: int
  state :: int
  cmdline :: string

datatype stream = Stdout | Stderr

datatype wstatus = WExited int | WSignaled int | WStopped int | WOther

text \<open>
  The state of the shell and of what it has done to its surroundings: the job table,
  the counter, the text written so far (in order), the calls of \<^verbatim>\<open>kill\<close> made so
  far (in order), and the children whose change of state \<^verbatim>\<open>waitpid\<close> has still to
  report, in the order in which it reports them.
\<close>

record world =
  jobs :: "job_t list"
  nextjid :: int
  out :: "(stream \<times> string) list"
  sent :: "(int \<times> int) list"
  pending :: "(int \<times> wstatus) list"

definition print :: "stream \<Rightarrow> string \<Rightarrow> world \<Rightarrow> world" where
  "print f s w = w\<lparr>out := out w @ [(f, s)]\<rparr>"

definition kill :: "int \<Rightarrow> int \<Rightarrow> world \<Rightarrow> world" where
  "kill p sig w = w\<lparr>sent := sent w @ [(p, sig)]\<rparr>"

subsection \<open>Decimal output of \<^verbatim>\<open>%d\<close>\<close>

definition digit_char :: "nat \<Rightarrow> char" where
  "digit_char n = ''0123456789'' ! n"

function show_nat :: "nat \<Rightarrow> string" where
  "show_nat n = (if n < 10 then [digit_char n] else show_nat (n div 10) @ [digit_char (n mod 10)])"
  by pat_completeness auto
termination
  by (relation "measure id") auto

definition show_int :: "int \<Rightarrow> string" where
  "show_int i = (if i < 0 then CHR ''-'' # show_nat (nat (- i)) else show_nat (nat i))"

subsection \<open>The helper routines of the job list\<close>

text \<open>\<^verbatim>\<open>clearjob\<close> writes the four fields of one slot.\<close>

definition clearjob :: "job_t \<Rightarrow> job_t" where
  "clearjob job = job\<lparr>pid := 0, jid := 0, state := UNDEF, cmdline := []\<rparr>"

text \<open>
  \<^verbatim>\<open>initjobs\<close> clears the \<^verbatim>\<open>MAXJOBS\<close> slots. The array is of static storage, so
  it starts zeroed; \<^verbatim>\<open>nextjid\<close> is initialised to 1 at its declaration.
\<close>

definition initjobs :: "job_t list \<Rightarrow> job_t list" where
  "initjobs js = map clearjob js"

definition init_world :: world where
  "init_world =
     \<lparr>jobs = initjobs (replicate MAXJOBS \<lparr>pid = 0, jid = 0, state = 0, cmdline = []\<rparr>),
      nextjid = 1, out = [], sent = [], pending = []\<rparr>"

text \<open>
  Every search of the table is the loop \<^verbatim>\<open>for (i = 0; i < MAXJOBS; i++) if (c) ...\<close>
  that leaves at the first slot satisfying its condition: \<open>first_slot\<close> is that slot.
\<close>

fun first_slot :: "(job_t \<Rightarrow> bool) \<Rightarrow> job_t list \<Rightarrow> nat option" where
  "first_slot P [] = None"
| "first_slot P (j # js) = (if P j then Some 0 else map_option Suc (first_slot P js))"

fun maxjid_from :: "int \<Rightarrow> job_t list \<Rightarrow> int" where
  "maxjid_from m [] = m"
| "maxjid_from m (j # js) = maxjid_from (if jid j > m then jid j else m) js"

definition maxjid :: "job_t list \<Rightarrow> int" where
  "maxjid js = maxjid_from 0 js"

text \<open>
  \<^verbatim>\<open>addjob\<close> returns its \<^verbatim>\<open>int\<close> and the state. The slot's job id is the old
  value of \<^verbatim>\<open>nextjid\<close>, and the counter goes back to 1 once it exceeds
  \<^verbatim>\<open>MAXJOBS\<close>.
\<close>

definition addjob :: "world \<Rightarrow> int \<Rightarrow> int \<Rightarrow> string \<Rightarrow> int \<times> world" where
  "addjob w p st cmd =
     (if p < 1 then (0, print Stderr (''Unable to create job for pid '' @ show_int p) w)
      else case first_slot (\<lambda>j. pid j = 0) (jobs w) of
        Some i \<Rightarrow>
          (1, w\<lparr>jobs := (jobs w)[i := (jobs w ! i)\<lparr>pid := p, state := st, jid := nextjid w,
                                                  cmdline := cmd\<rparr>],
                nextjid := (if nextjid w + 1 > int MAXJOBS then 1 else nextjid w + 1)\<rparr>)
      | None \<Rightarrow> (0, print Stderr (''Tried to create too many jobs'' @ [CHR 0x0A]) w))"

definition deletejob :: "world \<Rightarrow> int \<Rightarrow> int \<times> world" where
  "deletejob w p =
     (if p < 1 then (0, w)
      else case first_slot (\<lambda>j. pid j = p) (jobs w) of
        Some i \<Rightarrow>
          (let js = (jobs w)[i := clearjob (jobs w ! i)]
           in (1, w\<lparr>jobs := js, nextjid := maxjid js + 1\<rparr>))
      | None \<Rightarrow> (0, w))"

definition fgpid :: "job_t list \<Rightarrow> int" where
  "fgpid js = (case first_slot (\<lambda>j. state j = FG) js of Some i \<Rightarrow> pid (js ! i) | None \<Rightarrow> 0)"

definition getjobpid :: "job_t list \<Rightarrow> int \<Rightarrow> nat option" where
  "getjobpid js p = (if p < 1 then None else first_slot (\<lambda>j. pid j = p) js)"

definition getjobjid :: "job_t list \<Rightarrow> int \<Rightarrow> nat option" where
  "getjobjid js i = (if i < 1 then None else first_slot (\<lambda>j. jid j = i) js)"

definition pid2jid :: "world \<Rightarrow> int \<Rightarrow> int" where
  "pid2jid w p =
     (if p < 1 then 0
      else case first_slot (\<lambda>j. pid j = p) (jobs w) of Some i \<Rightarrow> jid (jobs w ! i) | None \<Rightarrow> 0)"

subsection \<open>Results that are not a return\<close>

text \<open>
  A call of the shell can end otherwise than by returning: a dereferenced null pointer
  or a write outside an array (\<open>Segfault\<close>, \<open>OutOfBounds\<close>: undefined behaviour in C),
  \<^verbatim>\<open>exit(n)\<close>, or a \<^verbatim>\<open>pause()\<close> that no signal ever ends (\<open>Blocked\<close>).
\<close>

datatype error = Segfault | OutOfBounds | Exit int | Blocked

section \<open>The handler of SIGCHLD\<close>

text \<open>
  \<^verbatim>\<open>waitpid(-1, &status, WNOHANG | WUNTRACED)\<close> takes the first child of \<open>pending\<close>
  and returns its (positive) process id, or returns at most 0 when there is none, which
  ends the loop. The status satisfies \<^verbatim>\<open>WIFEXITED\<close>, \<^verbatim>\<open>WIFSIGNALED\<close>,
  \<^verbatim>\<open>WIFSTOPPED\<close> or none of them. Every path through the body of the
  \<^verbatim>\<open>while\<close> loop ends in \<^verbatim>\<open>return\<close> or in \<^verbatim>\<open>unix_error\<close>, which calls
  \<^verbatim>\<open>exit(1)\<close>: the condition of the loop is evaluated once, and the function has no
  recursive call. In the third case the pointer returned by \<^verbatim>\<open>getjobpid\<close> is
  dereferenced as it is.
\<close>

definition sigchld_handler :: "world \<Rightarrow> error + world" where
  "sigchld_handler w =
     (case pending w of
        [] \<Rightarrow> Inr w
      | (p, status) # rest \<Rightarrow>
          if p > 0 then
            (let w1 = w\<lparr>pending := rest\<rparr> in
             case status of
               WExited c \<Rightarrow> Inr (snd (deletejob w1 p))
             | WSignaled sig \<Rightarrow> Inr (snd (deletejob w1 p))
             | WStopped sig \<Rightarrow>
                 (case getjobpid (jobs w1) p of
                    None \<Rightarrow> Inl Segfault
                  | Some i \<Rightarrow>
                      Inr (print Stdout
                             (''Job ['' @ show_int (jid (jobs w1 ! i)) @ ''] ('' @ show_int p
                                @ '') stopped by signal '' @ show_int sig @ [CHR 0x0A])
                             (w1\<lparr>jobs := (jobs w1)[i := (jobs w1 ! i)\<lparr>state := ST\<rparr>]\<rparr>)))
             | WOther \<Rightarrow> Inl (Exit 1))
          else Inr w)"

section \<open>Signals that arrive during a command\<close>

text \<open>
  \<^verbatim>\<open>do_bgfg\<close> and \<^verbatim>\<open>waitfg\<close> block no signal (the mask that \<^verbatim>\<open>waitfg\<close>
  installs is empty), so a signal handler can run between any two of their statements.
  A handler run is a step on the state that returns, or ends the shell. The
  surroundings of a command are the handler runs to come, in order, each with the point
  of the program at which it arrives: in \<^verbatim>\<open>do_bgfg\<close>, after the job has been looked
  up, after \<^verbatim>\<open>kill\<close>, after \<^verbatim>\<open>printf\<close> (for \<^verbatim>\<open>bg\<close>) or after
  \<^verbatim>\<open>job->state = FG\<close> (for \<^verbatim>\<open>fg\<close>); in \<^verbatim>\<open>waitfg\<close>, before the check of an
  iteration, between the check and \<^verbatim>\<open>pause()\<close>, or while the shell is suspended in
  \<^verbatim>\<open>pause()\<close>. \<open>deliver pt\<close> runs the handlers that arrive at the point the
  program has reached; it returns the state and the arrivals still to come. An arrival
  whose point is not the one the program reaches next does not happen during the call,
  nor do the arrivals after it.
\<close>

type_synonym handler_run = "world \<Rightarrow> error + world"

datatype point =
  AfterLookup | AfterKill | AfterPrintf | AfterWrite | BeforeCheck | AfterCheck | InPause

type_synonym arrival = "point \<times> handler_run"

fun deliver :: "point \<Rightarrow> arrival list \<Rightarrow> world \<Rightarrow> error + world \<times> arrival list" where
  "deliver pt [] w = Inr (w, [])"
| "deliver pt ((q, h) # evs) w =
     (if q = pt then (case h w of Inl e \<Rightarrow> Inl e | Inr w' \<Rightarrow> deliver pt evs w')
      else Inr (w, (q, h) # evs))"

text \<open>
  \<^verbatim>\<open>pause()\<close> suspends the shell until a signal handler has run and returned: the
  next arrival, if it comes while the shell is suspended. When no signal arrives any
  more, \<^verbatim>\<open>pause()\<close> does not return.
\<close>

definition pause :: "arrival list \<Rightarrow> world \<Rightarrow> error + world \<times> arrival list" where
  "pause evs w =
     (case evs of
        [] \<Rightarrow> Inl Blocked
      | (q, h) # rest \<Rightarrow>
          if q = InPause then (case h w of Inl e \<Rightarrow> Inl e | Inr w' \<Rightarrow> Inr (w', rest))
          else Inl Blocked)"

section \<open>Waiting for the foreground job\<close>

text \<open>
  An iteration of the loop of \<^verbatim>\<open>waitfg\<close> looks the job up; \<open>waiting\<close> is its test
  \<^verbatim>\<open>job && job->state == FG\<close>. When the test holds the loop calls \<^verbatim>\<open>pause()\<close>
  and starts again; otherwise the function returns. \<^verbatim>\<open>waitfg\<close> returns the state
  and the arrivals it has not consumed.
\<close>

definition waiting :: "world \<Rightarrow> int \<Rightarrow> bool" where
  "waiting w p = (case getjobpid (jobs w) p of None \<Rightarrow> False | Some i \<Rightarrow> state (jobs w ! i) = FG)"

function waitfg :: "int \<Rightarrow> arrival list \<Rightarrow> world \<Rightarrow> error + world \<times> arrival list" where
  "waitfg p evs w =
     (case deliver BeforeCheck evs w of
        Inl e \<Rightarrow> Inl e
      | Inr (w0, evs0) \<Rightarrow>
          if waiting w0 p then
            (case deliver AfterCheck evs0 w0 of
               Inl e \<Rightarrow> Inl e
             | Inr (w1, evs1) \<Rightarrow>
                 (case pause evs1 w1 of
                    Inl e \<Rightarrow> Inl e
                  | Inr (w2, evs2) \<Rightarrow> waitfg p evs2 w2))
          else Inr (w0, evs0))"
  by pat_completeness auto
termination
proof (relation "measure (\<lambda>(p, evs, w). length evs)")
  show "wf (measure (\<lambda>(p, evs, w). length evs))" by simp
next
  fix p :: int and evs evs0 evs1 evs2 :: "arrival list" and w w0 w1 w2 :: world and x y z
  assume a: "deliver BeforeCheck evs w = Inr x" "(w0, evs0) = x"
    and b: "deliver AfterCheck evs0 w0 = Inr y" "(w1, evs1) = y"
    and c: "pause evs1 w1 = Inr z" "(w2, evs2) = z"
  have d: "deliver pt es v = Inr (v', es') \<Longrightarrow> length es' \<le> length es" for pt es v v' es'
  proof (induction es arbitrary: v)
    case Nil
    then show ?case by simp
  next
    case (Cons qh es)
    obtain q h where qh: "qh = (q, h)" by (cases qh)
    show ?case
    proof (cases "q = pt")
      case True
      with Cons.prems qh obtain u where "h v = Inr u" "deliver pt es u = Inr (v', es')"
        by (auto split: sum.splits)
      with Cons.IH [of u] show ?thesis by simp
    next
      case False
      with Cons.prems qh show ?thesis by auto
    qed
  qed
  from a d have "length evs0 \<le> length evs" by metis
  moreover from b d have "length evs1 \<le> length evs0" by metis
  moreover from c have "length evs2 < length evs1"
    by (auto simp: pause_def split: list.splits if_splits sum.splits)
  ultimately show "((p, evs2, w2), (p, evs, w)) \<in> measure (\<lambda>(p, evs, w). length evs)" by simp
qed

section \<open>The builtin commands bg and fg\<close>

subsection \<open>\<^verbatim>\<open>strtol\<close> and the conversion to \<^verbatim>\<open>int\<close>\<close>

text \<open>
  \<^verbatim>\<open>strtol(s, &endptr, 10)\<close> of the C library: white space is skipped, a sign is
  optional, the digits follow. It returns the value, limited to the range of
  \<^verbatim>\<open>long\<close> (64 bits), and what is left of the string at \<^verbatim>\<open>endptr\<close>; without a
  digit the value is 0 and \<^verbatim>\<open>endptr\<close> is \<^verbatim>\<open>s\<close>. \<^verbatim>\<open>int id = id_lng\<close> keeps the
  low 32 bits, in two's complement.
\<close>

definition isspace :: "char \<Rightarrow> bool" where
  "isspace c = (c \<in> set [CHR '' '', CHR 0x09, CHR 0x0A, CHR 0x0B, CHR 0x0C, CHR 0x0D])"

definition isdigit :: "char \<Rightarrow> bool" where
  "isdigit c = (c \<in> set ''0123456789'')"

definition digits_val :: "string \<Rightarrow> int" where
  "digits_val ds = foldl (\<lambda>acc c. 10 * acc + (of_char c - 48)) 0 ds"

definition clamp_long :: "int \<Rightarrow> int" where
  "clamp_long v = max (- (2 ^ 63)) (min (2 ^ 63 - 1) v)"

definition strtol :: "string \<Rightarrow> int \<times> string" where
  "strtol s =
     (let t = dropWhile isspace s;
          neg = (t \<noteq> [] \<and> hd t = CHR ''-'');
          u = (if t \<noteq> [] \<and> (hd t = CHR ''-'' \<or> hd t = CHR ''+'') then tl t else t);
          ds = takeWhile isdigit u
      in if ds = [] then (0, s)
         else (clamp_long (if neg then - digits_val ds else digits_val ds), dropWhile isdigit u))"

definition long_to_int :: "int \<Rightarrow> int" where
  "long_to_int v = (v + 2 ^ 31) mod 2 ^ 32 - 2 ^ 31"

abbreviation (input) SIGCONT :: int where "SIGCONT \<equiv> 18"

subsection \<open>\<^verbatim>\<open>do_bgfg\<close>\<close>

text \<open>
  \<^verbatim>\<open>builtin_cmd\<close> calls \<^verbatim>\<open>do_bgfg(argc, argv)\<close> after it has compared
  \<^verbatim>\<open>argv[0]\<close> with \<^verbatim>\<open>"bg"\<close> and \<^verbatim>\<open>"fg"\<close>: the argument vector is \<open>cmd # args\<close>
  and \<^verbatim>\<open>argc\<close> is its length, as \<^verbatim>\<open>parseline\<close> leaves them. \<open>parse_id\<close> is the
  conversion of \<^verbatim>\<open>argv[1]\<close>: whether it starts with \<^verbatim>\<open>%\<close>, and the number, or
  \<open>None\<close> when \<^verbatim>\<open>*endptr\<close> is not the end of the string.
\<close>

definition parse_id :: "string \<Rightarrow> (bool \<times> int) option" where
  "parse_id a =
     (let is_jid = (a \<noteq> [] \<and> hd a = CHR ''%'');
          id_str = (if is_jid then tl a else a);
          (id_lng, endptr) = strtol id_str
      in if endptr \<noteq> [] then None else Some (is_jid, long_to_int id_lng))"

text \<open>
  The pointer \<^verbatim>\<open>job\<close> stays the slot found by the lookup; each later statement
  reads or writes that slot as it is when the statement runs.
\<close>

definition do_bgfg ::
  "string \<Rightarrow> string list \<Rightarrow> arrival list \<Rightarrow> world \<Rightarrow> error + world \<times> arrival list" where
  "do_bgfg cmd args evs w =
     (if 1 + length args \<noteq> 2 then
        Inr (print Stderr (cmd @ '' command requires PID or %jobid argument'' @ [CHR 0x0A]) w, evs)
      else case parse_id (hd args) of
        None \<Rightarrow>
          Inr (print Stderr (cmd @ '': argument must be a PID or %jobid'' @ [CHR 0x0A]) w, evs)
      | Some (is_jid, ident) \<Rightarrow>
          (case (if is_jid then getjobjid (jobs w) ident else getjobpid (jobs w) ident) of
             None \<Rightarrow>
               Inr (print Stderr
                      (if is_jid then ''%'' @ show_int ident @ '': No such job'' @ [CHR 0x0A]
                       else ''('' @ show_int ident @ ''): No such process'' @ [CHR 0x0A]) w, evs)
           | Some i \<Rightarrow>
               (case deliver AfterLookup evs w of
                  Inl e \<Rightarrow> Inl e
                | Inr (w1, evs1) \<Rightarrow>
                    (case deliver AfterKill evs1 (kill (- pid (jobs w1 ! i)) SIGCONT w1) of
                       Inl e \<Rightarrow> Inl e
                     | Inr (w2, evs2) \<Rightarrow>
                         if cmd = ''bg'' then
                           (case deliver AfterPrintf evs2
                                   (print Stdout
                                      (''['' @ show_int (jid (jobs w2 ! i)) @ ''] (''
                                         @ show_int (pid (jobs w2 ! i)) @ '') ''
                                         @ cmdline (jobs w2 ! i)) w2) of
                              Inl e \<Rightarrow> Inl e
                            | Inr (w3, evs3) \<Rightarrow>
                                Inr (w3\<lparr>jobs := (jobs w3)[i := (jobs w3 ! i)\<lparr>state := BG\<rparr>]\<rparr>,
                                     evs3))
                         else
                           (case deliver AfterWrite evs2
                                   (w2\<lparr>jobs := (jobs w2)[i := (jobs w2 ! i)\<lparr>state := FG\<rparr>]\<rparr>) of
                              Inl e \<Rightarrow> Inl e
                            | Inr (w3, evs3) \<Rightarrow> waitfg (pid (jobs w3 ! i)) evs3 w3)))))"

section \<open>The tokenizer\<close>

text \<open>
  \<^verbatim>\<open>parseline\<close> copies the line into a static array of \<^verbatim>\<open>MAXLINE\<close> bytes, writes a
  space over its last character and cuts it into arguments at spaces, or at the closing
  quote for an argument that starts with a single quote. A line is a C string, so it
  holds no zero byte. \<open>split_at buf d\<close> is \<^verbatim>\<open>delim = strchr(buf, d)\<close>: the argument
  before \<^verbatim>\<open>delim\<close> and the text after it, or \<open>None\<close> for the null pointer. The
  function returns what it has stored in \<^verbatim>\<open>argv\<close>, what it has written to
  \<^verbatim>\<open>*argc_dest\<close> (\<open>None\<close> when it has written nothing) and its \<^verbatim>\<open>int\<close>.
\<close>

record parsed =
  argv :: "string list"
  argc_dest :: "int option"
  ret :: int

definition skip_spaces :: "string \<Rightarrow> string" where
  "skip_spaces buf = dropWhile (\<lambda>c. c = CHR '' '') buf"

definition split_at :: "string \<Rightarrow> char \<Rightarrow> (string \<times> string) option" where
  "split_at buf d =
     (if d \<in> set buf then Some (takeWhile (\<lambda>c. c \<noteq> d) buf, tl (dropWhile (\<lambda>c. c \<noteq> d) buf))
      else None)"

definition next_arg :: "string \<Rightarrow> (string \<times> string) option" where
  "next_arg buf =
     (if buf \<noteq> [] \<and> hd buf = CHR 0x27 then split_at (tl buf) (CHR 0x27)
      else split_at buf (CHR '' ''))"

function build_argv :: "string \<Rightarrow> string list" where
  "build_argv buf =
     (case next_arg buf of None \<Rightarrow> [] | Some (a, r) \<Rightarrow> a # build_argv (skip_spaces r))"
  by pat_completeness auto
termination
proof (relation "measure length")
  show "wf (measure length)" by simp
next
  fix buf :: string and x a r
  assume n: "next_arg buf = Some x" and x: "(a, r) = x"
  have split: "length t < length b" if "split_at b d = Some (c, t)" for b d c t
  proof -
    from that have d: "d \<in> set b" and t: "t = tl (dropWhile (\<lambda>c. c \<noteq> d) b)"
      by (auto simp: split_at_def split: if_splits)
    from d have "dropWhile (\<lambda>c. c \<noteq> d) b \<noteq> []" by simp
    then have "length t < length (dropWhile (\<lambda>c. c \<noteq> d) b)" using t by simp
    also have "\<dots> \<le> length b" by (rule length_dropWhile_le)
    finally show ?thesis .
  qed
  have s: "length (skip_spaces r) \<le> length r"
    unfolding skip_spaces_def by (rule length_dropWhile_le)
  have "length r < length buf"
  proof (cases "buf \<noteq> [] \<and> hd buf = CHR 0x27")
    case True
    with n x have "split_at (tl buf) (CHR 0x27) = Some (a, r)" by (simp add: next_arg_def)
    then have "length r < length (tl buf)" by (rule split)
    then show ?thesis by simp
  next
    case False
    with n x have "split_at buf (CHR '' '') = Some (a, r)" by (auto simp: next_arg_def)
    then show ?thesis by (rule split)
  qed
  with s show "(skip_spaces r, buf) \<in> measure length" by simp
qed

definition parseline :: "string \<Rightarrow> error + parsed" where
  "parseline line =
     (if line = [] \<or> length line \<ge> MAXLINE then Inl OutOfBounds
      else
        (let buf = skip_spaces (butlast line @ '' '');
             args = build_argv buf
         in if length args \<ge> MAXARGS then Inl OutOfBounds
            else if length args = 0 then Inr \<lparr>argv = [], argc_dest = None, ret = 1\<rparr>
            else if last args \<noteq> [] \<and> hd (last args) = CHR ''&'' then
              Inr \<lparr>argv = butlast args, argc_dest = Some (int (length args) - 1), ret = 1\<rparr>
            else Inr \<lparr>argv = args, argc_dest = Some (int (length args)), ret = 0\<rparr>))"

section \<open>Concrete states\<close>

text \<open>The table after two background jobs, of process ids 100 and 200, have been added.\<close>

definition two_jobs :: world where
  "two_jobs = snd (addjob (snd (addjob init_world 100 BG ''a'')) 200 BG ''b'')"

section \<open>Runs of the job table\<close>

text \<open>\<open>add_all\<close> calls \<^verbatim>\<open>addjob\<close> for each request (process id, state, command line) in turn.\<close>

fun add_all :: "world \<Rightarrow> (int \<times> int \<times> string) list \<Rightarrow> world" where
  "add_all w [] = w"
| "add_all w ((p, st, c) # rs) = add_all (snd (addjob w p st c)) rs"


text \<open>Sixteen requests, of process ids 101 to 116.\<close>

definition sixteen :: "(int \<times> int \<times> string) list" where
  "sixteen = map (\<lambda>p. (p, BG, ''job'')) [101, 102, 103, 104, 105, 106, 107, 108, 109, 110, 111, 112, 113, 114, 115, 116]"

text \<open>The table after \<^verbatim>\<open>addjob\<close> has been called twice with the process id 100.\<close>

definition dup_jobs :: world where
  "dup_jobs = snd (addjob (snd (addjob init_world 100 BG ''a'')) 100 BG ''a'')"

text \<open>
  A run of the job table is a list of calls of \<^verbatim>\<open>addjob\<close> and \<^verbatim>\<open>deletejob\<close>;
  \<open>states_of\<close> lists the states it goes through, the first one included.
\<close>

datatype job_op = Add int int string | Delete int

fun exec_op :: "world \<Rightarrow> job_op \<Rightarrow> world" where
  "exec_op w (Add p st c) = snd (addjob w p st c)"
| "exec_op w (Delete p) = snd (deletejob w p)"

fun states_of :: "world \<Rightarrow> job_op list \<Rightarrow> world list" where
  "states_of w [] = [w]"
| "states_of w (x # xs) = w # states_of (exec_op w x) xs"

text \<open>
  No two slots hold the same process id other than 0, and at most one slot is in state
  \<^verbatim>\<open>FG\<close>.
\<close>

definition pids_unique :: "job_t list \<Rightarrow> bool" where
  "pids_unique js = distinct (filter (\<lambda>q. q \<noteq> 0) (map pid js))"

definition one_fg :: "job_t list \<Rightarrow> bool" where
  "one_fg js = (length (filter (\<lambda>j. state j = FG) js) \<le> 1)"

text \<open>
  A run is admissible when each \<^verbatim>\<open>addjob\<close> is called with a process id that
  \<^verbatim>\<open>getjobpid\<close> does not find in the table, and with the state \<^verbatim>\<open>FG\<close> only when
  no slot is in that state.
\<close>

fun admissible :: "world \<Rightarrow> job_op list \<Rightarrow> bool" where
  "admissible w [] = True"
| "admissible w (Add p st c # xs) =
     (getjobpid (jobs w) p = None
      \<and> (st = FG \<longrightarrow> first_slot (\<lambda>j. state j = FG) (jobs w) = None)
      \<and> admissible (exec_op w (Add p st c)) xs)"
| "admissible w (Delete p # xs) = admissible (exec_op w (Delete p)) xs"

definition some_ops :: "job_op list" where
  "some_ops = [Add 100 FG ''a'', Add 200 BG ''b'', Delete 100, Add 300 FG ''c'', Delete 200]"

text \<open>\<open>never_full\<close>: at each call of \<^verbatim>\<open>addjob\<close> in the run the table has an empty slot.\<close>

fun never_full :: "world \<Rightarrow> job_op list \<Rightarrow> bool" where
  "never_full w [] = True"
| "never_full w (Add p st c # xs) =
     (first_slot (\<lambda>j. pid j = 0) (jobs w) \<noteq> None \<and> never_full (exec_op w (Add p st c)) xs)"
| "never_full w (Delete p # xs) = never_full (exec_op w (Delete p)) xs"

text \<open>
  \<open>jids_increase\<close>: each call of \<^verbatim>\<open>addjob\<close> in the run that returns 1 has stored,
  in the slot it filled, a job id above the job id of every slot of the table it was
  called on; and each call of \<^verbatim>\<open>deletejob\<close> that returns 1 leaves
  \<^verbatim>\<open>nextjid\<close> at \<^verbatim>\<open>maxjid\<close> of the table it leaves, plus 1.
\<close>

fun jids_increase :: "world \<Rightarrow> job_op list \<Rightarrow> bool" where
  "jids_increase w [] = True"
| "jids_increase w (Add p st c # xs) =
     ((fst (addjob w p st c) = 1 \<longrightarrow>
         (case first_slot (\<lambda>j. pid j = 0) (jobs w) of
            None \<Rightarrow> False
          | Some i \<Rightarrow> list_all (\<lambda>j. jid j < jid (jobs (snd (addjob w p st c)) ! i)) (jobs w)))
      \<and> jids_increase (exec_op w (Add p st c)) xs)"
| "jids_increase w (Delete p # xs) =
     ((fst (deletejob w p) = 1 \<longrightarrow>
         nextjid (snd (deletejob w p)) = maxjid (jobs (snd (deletejob w p))) + 1)
      \<and> jids_increase (exec_op w (Delete p)) xs)"

text \<open>
  The counter wraps when a successful \<^verbatim>\<open>addjob\<close> takes it beyond
  \<^verbatim>\<open>MAXJOBS\<close>: it is set to 1, and stays there until a \<^verbatim>\<open>deletejob\<close> succeeds.
  \<open>no_add_after_wrap wrapped\<close>: no call of \<^verbatim>\<open>addjob\<close> in the run succeeds while
  the counter is wrapped; \<open>wrapped\<close> tells whether it is at the start of the run.
\<close>

fun no_add_after_wrap :: "bool \<Rightarrow> world \<Rightarrow> job_op list \<Rightarrow> bool" where
  "no_add_after_wrap wrapped w [] = True"
| "no_add_after_wrap wrapped w (Add p st c # xs) =
     (if fst (addjob w p st c) = 1
      then \<not> wrapped \<and> no_add_after_wrap (nextjid w + 1 > int MAXJOBS) (exec_op w (Add p st c)) xs
      else no_add_after_wrap wrapped (exec_op w (Add p st c)) xs)"
| "no_add_after_wrap wrapped w (Delete p # xs) =
     no_add_after_wrap (wrapped \<and> fst (deletejob w p) \<noteq> 1) (exec_op w (Delete p)) xs"

text \<open>
  Fifteen additions, the deletion of the first job, and two more additions.
\<close>

definition wrap_ops :: "job_op list" where
  "wrap_ops =
     map (\<lambda>p. Add p BG ''job'')
       [101, 102, 103, 104, 105, 106, 107, 108, 109, 110, 111, 112, 113, 114, 115]
     @ [Delete 101, Add 116 BG ''job'', Add 117 BG ''job'']"

section \<open>Handler runs\<close>

text \<open>
  The handler run caused by one child changing its state: the child becomes reportable
  by \<^verbatim>\<open>waitpid\<close>, and \<^verbatim>\<open>sigchld_handler\<close> runs.
\<close>

definition child_event :: "int \<times> wstatus \<Rightarrow> handler_run" where
  "child_event c w = sigchld_handler (w\<lparr>pending := pending w @ [c]\<rparr>)"

text \<open>
  The state in which \<^verbatim>\<open>waitfg\<close> makes its first check when \<^verbatim>\<open>fg %2\<close> is typed
  on the table of \<open>two_jobs\<close>: \<^verbatim>\<open>SIGCONT\<close> has been sent to the process group of
  job 2 and the job is in state \<^verbatim>\<open>FG\<close>.
\<close>

definition fg_started :: world where
  "fg_started =
     two_jobs\<lparr>sent := [(- 200, SIGCONT)],
              jobs := (jobs two_jobs)[1 := (jobs two_jobs ! 1)\<lparr>state := FG\<rparr>]\<rparr>"

section \<open>Properties of the tokenizer\<close>

text \<open>
  C4, as the specification states it: for the empty input line \<^verbatim>\<open>parseline\<close> yields
  zero arguments and reports background = false. On the line that holds the newline
  alone the function does not report false: the statement fails there.
\<close>

theorem parseline_empty_line_bg_counterexample:
  "\<not> (argv (projr (parseline [CHR 0x0A])) = [] \<and> ret (projr (parseline [CHR 0x0A])) = 0)"
  by code_simp

text \<open>
  C4, amended: for the empty input line (the newline alone) \<^verbatim>\<open>parseline\<close> stores no
  argument, returns 1, the value that stands for a background request, at its
  \<^verbatim>\<open>return 1\<close> for a blank line, and writes nothing to \<^verbatim>\<open>*argc_dest\<close>.
\<close>

theorem parseline_empty_line:
  "parseline [CHR 0x0A] = Inr \<lparr>argv = [], argc_dest = None, ret = 1\<rparr>"
  by code_simp

section \<open>Properties of the handler of SIGCHLD\<close>

text \<open>
  C1: one run of \<^verbatim>\<open>sigchld_handler\<close> should process every child that can be reaped.
  With the children 100 and 200 both exited when the handler runs, one run removes
  job 100 only: job 200 stays in the table, in slot 1, and child 200 stays unreaped.
\<close>

theorem sigchld_handler_reaps_one:
  "(case sigchld_handler (two_jobs\<lparr>pending := [(100, WExited 0), (200, WExited 0)]\<rparr>) of
      Inl e \<Rightarrow> False
    | Inr w \<Rightarrow> getjobpid (jobs w) 100 = None \<and> getjobpid (jobs w) 200 = Some 1
               \<and> pending w = [(200, WExited 0)])"
  by code_simp

text \<open>
  C10: when the handler processes a stopped child, it returns (with the job marked
  \<^verbatim>\<open>ST\<close> and the notice printed) if the table holds a job of that process id, and
  dereferences the null pointer otherwise: the branch is safe exactly when the job is in
  the table.
\<close>

theorem sigchld_stopped_needs_job:
  assumes "pending w = (p, WStopped sig) # rest" and "0 < p"
  shows "sigchld_handler w =
      (case getjobpid (jobs w) p of
         None \<Rightarrow> Inl Segfault
       | Some i \<Rightarrow>
           Inr (w\<lparr>pending := rest,
                  jobs := (jobs w)[i := (jobs w ! i)\<lparr>state := ST\<rparr>],
                  out := out w @
                    [(Stdout, ''Job ['' @ show_int (jid (jobs w ! i)) @ ''] ('' @ show_int p
                        @ '') stopped by signal '' @ show_int sig @ [CHR 0x0A])]\<rparr>))
    \<and> ((sigchld_handler w = Inl Segfault) = (getjobpid (jobs w) p = None))"
  using assms by (auto simp: sigchld_handler_def print_def Let_def split: option.splits)

theorem sigchld_stopped_needs_job_witness:
  "pending (two_jobs\<lparr>pending := [(200, WStopped 20)]\<rparr>) = (200, WStopped 20) # [] \<and>
   (0::int) < 200 \<and>
   getjobpid (jobs two_jobs) 200 = Some 1 \<and>
   sigchld_handler (two_jobs\<lparr>pending := [(200, WStopped 20)]\<rparr>) \<noteq> Inl Segfault \<and>
   sigchld_handler (init_world\<lparr>pending := [(200, WStopped 20)]\<rparr>) = Inl Segfault"
proof -
  have g: "getjobpid (jobs two_jobs) 200 = Some 1" by code_simp
  have g0: "getjobpid (jobs init_world) 200 = None" by code_simp
  have a: "pending (two_jobs\<lparr>pending := [(200, WStopped 20)]\<rparr>) = (200, WStopped 20) # []"
    by simp
  have b: "pending (init_world\<lparr>pending := [(200, WStopped 20)]\<rparr>) = (200, WStopped 20) # []"
    by simp
  have p: "(0::int) < 200" by simp
  show ?thesis
    using sigchld_stopped_needs_job [OF a p] sigchld_stopped_needs_job [OF b p] g g0 by simp
qed

section \<open>Properties of bg and fg\<close>

text \<open>
  C9: an argument that is not a number, or a call without exactly one argument, should
  give the usage error. For the argument \<^verbatim>\<open>%\<close>, with no digit after it,
  \<^verbatim>\<open>strtol\<close> converts nothing and leaves \<^verbatim>\<open>endptr\<close> at the end of the string, so
  the test of \<^verbatim>\<open>*endptr\<close> passes and the command looks for job 0: it prints
  \<^verbatim>\<open>%0: No such job\<close> where the usage error is due.
\<close>

theorem do_bgfg_percent_alone:
  "do_bgfg ''bg'' [''%''] [] init_world
     = Inr (init_world\<lparr>out := [(Stderr, ''%0: No such job'' @ [CHR 0x0A])]\<rparr>, [])"
proof -
  have p: "parse_id ''%'' = Some (True, 0)" by code_simp
  have s: "show_int 0 = ''0''" by code_simp
  have o: "out init_world = []" by (simp add: init_world_def)
  show ?thesis
    by (simp add: do_bgfg_def p s o getjobjid_def print_def)
qed

text \<open>
  C8: when the argument of \<^verbatim>\<open>bg\<close> or \<^verbatim>\<open>fg\<close> converts to a number and no job has
  that job id (argument with \<^verbatim>\<open>%\<close>) or process id (argument without), the command
  prints \<^verbatim>\<open>%<id>: No such job\<close> or \<^verbatim>\<open>(<id>): No such process\<close> according to the
  form of the argument, and returns at once; nothing else of the state changes: the job
  table, the counter and the list of signals sent are as before.
\<close>

theorem do_bgfg_no_such_job:
  assumes "parse_id a = Some (is_jid, ident)"
    and "(if is_jid then getjobjid (jobs w) ident else getjobpid (jobs w) ident) = None"
  shows "is_jid = (a \<noteq> [] \<and> hd a = CHR ''%'') \<and>
     do_bgfg cmd [a] hs w =
       Inr (w\<lparr>out := out w @
                [(Stderr, if is_jid then ''%'' @ show_int ident @ '': No such job'' @ [CHR 0x0A]
                          else ''('' @ show_int ident @ ''): No such process'' @ [CHR 0x0A])]\<rparr>, hs)"
  using assms
  by (auto simp: do_bgfg_def print_def parse_id_def Let_def split: prod.splits if_splits)

theorem do_bgfg_no_such_job_witness:
  "parse_id ''%7'' = Some (True, 7) \<and> getjobjid (jobs init_world) 7 = None \<and>
   do_bgfg ''fg'' [''%7''] [] init_world
     = Inr (init_world\<lparr>out := [(Stderr, ''%7: No such job'' @ [CHR 0x0A])]\<rparr>, [])"
proof -
  have p: "parse_id ''%7'' = Some (True, 7)" by code_simp
  have g: "getjobjid (jobs init_world) 7 = None" by code_simp
  have s: "show_int 7 = ''7''" by code_simp
  have o: "out init_world = []" by (simp add: init_world_def)
  from g have g':
    "(if True then getjobjid (jobs init_world) 7 else getjobpid (jobs init_world) 7) = None"
    by simp
  show ?thesis
    using do_bgfg_no_such_job [OF p g', of "''fg''" "[]"] p g s o by simp
qed

section \<open>Properties of the job table\<close>

subsection \<open>Searching and filling slots\<close>

lemma first_slot_None: "(first_slot P js = None) = (\<forall>j\<in>set js. \<not> P j)"
  by (induction js) auto

lemma first_slot_Some:
  "first_slot P js = Some i \<Longrightarrow> i < length js \<and> P (js ! i) \<and> (\<forall>k<i. \<not> P (js ! k))"
proof (induction js arbitrary: i)
  case Nil
  then show ?case by simp
next
  case (Cons j js)
  show ?case
  proof (cases "P j")
    case True
    with Cons.prems show ?thesis by simp
  next
    case False
    with Cons.prems obtain i' where i': "first_slot P js = Some i'" "i = Suc i'"
      by (auto split: if_splits)
    from Cons.IH [OF i'(1)] False i'(2) show ?thesis
      by (auto simp: less_Suc_eq_0_disj)
  qed
qed

lemma first_slot_append:
  "\<forall>j\<in>set xs. \<not> P j \<Longrightarrow>
   first_slot P (xs @ ys) = (case first_slot P ys of None \<Rightarrow> None | Some i \<Rightarrow> Some (length xs + i))"
  by (induction xs) (auto split: option.splits)

lemma addjob_fails:
  "p < 1 \<or> (\<forall>j\<in>set (jobs w). pid j \<noteq> 0) \<Longrightarrow>
   fst (addjob w p st c) = 0 \<and> jobs (snd (addjob w p st c)) = jobs w
     \<and> nextjid (snd (addjob w p st c)) = nextjid w"
proof -
  assume h: "p < 1 \<or> (\<forall>j\<in>set (jobs w). pid j \<noteq> 0)"
  show ?thesis
  proof (cases "p < 1")
    case True
    then show ?thesis by (simp add: addjob_def print_def)
  next
    case False
    with h have "first_slot (\<lambda>j. pid j = 0) (jobs w) = None"
      by (simp add: first_slot_None)
    with False show ?thesis by (simp add: addjob_def print_def)
  qed
qed

lemma jobs_init_world:
  "jobs init_world = replicate MAXJOBS \<lparr>pid = 0, jid = 0, state = 0, cmdline = []\<rparr>"
  by (simp add: init_world_def initjobs_def clearjob_def)

lemma addjob_fills_next:
  assumes "1 \<le> p" and "\<forall>j\<in>set occ. pid j \<noteq> 0" and "pid z = 0"
    and "jobs w = occ @ z # free"
  shows "jobs (snd (addjob w p st c))
           = occ @ z\<lparr>pid := p, state := st, jid := nextjid w, cmdline := c\<rparr> # free"
proof -
  from assms have "first_slot (\<lambda>j. pid j = 0) (jobs w) = Some (length occ)"
    by (simp add: first_slot_append)
  with assms show ?thesis by (simp add: addjob_def)
qed

lemma add_all_fills:
  "\<forall>r\<in>set rs. 1 \<le> fst r \<Longrightarrow> \<forall>j\<in>set occ. pid j \<noteq> 0 \<Longrightarrow> pid z = 0 \<Longrightarrow>
   jobs w = occ @ replicate (length rs + m) z \<Longrightarrow>
   \<exists>new. jobs (add_all w rs) = occ @ new @ replicate m z \<and> map pid new = map fst rs"
proof (induction rs arbitrary: w occ)
  case Nil
  then show ?case by simp
next
  case (Cons r rs)
  obtain p st c where r: "r = (p, st, c)" by (cases r) auto
  let ?j = "z\<lparr>pid := p, state := st, jid := nextjid w, cmdline := c\<rparr>"
  let ?w = "snd (addjob w p st c)"
  from Cons.prems r have p: "1 \<le> p" by simp
  from Cons.prems have "jobs w = occ @ z # replicate (length rs + m) z" by simp
  from addjob_fills_next [OF p Cons.prems(2) Cons.prems(3) this]
  have j: "jobs ?w = (occ @ [?j]) @ replicate (length rs + m) z" by simp
  from Cons.prems(2) p have o: "\<forall>j\<in>set (occ @ [?j]). pid j \<noteq> 0" by auto
  from Cons.prems(1) have "\<forall>r\<in>set rs. 1 \<le> fst r" by simp
  from Cons.IH [OF this o Cons.prems(3) j]
  obtain new where n: "jobs (add_all ?w rs) = (occ @ [?j]) @ new @ replicate m z"
    "map pid new = map fst rs" by blast
  then have "jobs (add_all w (r # rs)) = occ @ (?j # new) @ replicate m z
     \<and> map pid (?j # new) = map fst (r # rs)"
    using r by simp
  then show ?case by blast
qed

lemma add_all_16_full:
  assumes "length rs = MAXJOBS" and "\<forall>r\<in>set rs. 1 \<le> fst r"
  shows "map pid (jobs (add_all init_world rs)) = map fst rs"
proof -
  have "jobs init_world = [] @ replicate (length rs + 0) \<lparr>pid = 0, jid = 0, state = 0, cmdline = []\<rparr>"
    using assms(1) by (simp add: jobs_init_world)
  from add_all_fills [OF assms(2) _ _ this]
  show ?thesis by auto
qed

text \<open>
  C6: \<^verbatim>\<open>addjob\<close> returns 0 and leaves the table and the counter as they are when the
  process id is below 1 or when no slot is empty; and after sixteen successful calls on
  the initialised table the slots hold the sixteen jobs, in order, and a seventeenth
  call returns 0 and leaves the table and the counter as they are.
\<close>

theorem addjob_full_or_bad_pid:
  "(p < 1 \<or> (\<forall>j\<in>set (jobs w). pid j \<noteq> 0) \<longrightarrow>
      fst (addjob w p st c) = 0 \<and> jobs (snd (addjob w p st c)) = jobs w
        \<and> nextjid (snd (addjob w p st c)) = nextjid w)
   \<and> (length rs = MAXJOBS \<and> (\<forall>r\<in>set rs. 1 \<le> fst r) \<longrightarrow>
        map pid (jobs (add_all init_world rs)) = map fst rs
        \<and> fst (addjob (add_all init_world rs) p st c) = 0
        \<and> jobs (snd (addjob (add_all init_world rs) p st c)) = jobs (add_all init_world rs)
        \<and> nextjid (snd (addjob (add_all init_world rs) p st c)) = nextjid (add_all init_world rs))"
proof (intro conjI impI)
  assume "p < 1 \<or> (\<forall>j\<in>set (jobs w). pid j \<noteq> 0)"
  from addjob_fails [OF this]
  show "fst (addjob w p st c) = 0" "jobs (snd (addjob w p st c)) = jobs w"
    "nextjid (snd (addjob w p st c)) = nextjid w" by simp_all
next
  assume h: "length rs = MAXJOBS \<and> (\<forall>r\<in>set rs. 1 \<le> fst r)"
  then have m: "map pid (jobs (add_all init_world rs)) = map fst rs"
    by (simp add: add_all_16_full)
  have "\<forall>j\<in>set (jobs (add_all init_world rs)). pid j \<noteq> 0"
  proof
    fix j assume "j \<in> set (jobs (add_all init_world rs))"
    then have "pid j \<in> set (map pid (jobs (add_all init_world rs)))" by simp
    with m have "pid j \<in> fst ` set rs" by simp
    with h show "pid j \<noteq> 0" by auto
  qed
  then have f: "p < 1 \<or> (\<forall>j\<in>set (jobs (add_all init_world rs)). pid j \<noteq> 0)" by simp
  from m show "map pid (jobs (add_all init_world rs)) = map fst rs" .
  from addjob_fails [OF f]
  show "fst (addjob (add_all init_world rs) p st c) = 0"
    "jobs (snd (addjob (add_all init_world rs) p st c)) = jobs (add_all init_world rs)"
    "nextjid (snd (addjob (add_all init_world rs) p st c)) = nextjid (add_all init_world rs)"
    by simp_all
qed

theorem addjob_full_or_bad_pid_witness:
  "list_all (\<lambda>j. pid j \<noteq> 0) (jobs (add_all init_world sixteen)) \<and>
   length sixteen = MAXJOBS \<and> list_all (\<lambda>r. 1 \<le> fst r) sixteen \<and>
   map pid (jobs (add_all init_world sixteen)) = map fst sixteen \<and>
   fst (addjob (add_all init_world sixteen) 117 BG ''job'') = 0 \<and>
   jobs (snd (addjob (add_all init_world sixteen) 117 BG ''job'')) = jobs (add_all init_world sixteen) \<and>
   nextjid (snd (addjob (add_all init_world sixteen) 117 BG ''job'')) = nextjid (add_all init_world sixteen)"
proof -
  have f: "list_all (\<lambda>j. pid j \<noteq> 0) (jobs (add_all init_world sixteen))" by code_simp
  have l: "length sixteen = MAXJOBS" by code_simp
  have r: "list_all (\<lambda>r. 1 \<le> fst r) sixteen" by code_simp
  show ?thesis
    using addjob_full_or_bad_pid [of 117 "add_all init_world sixteen" BG "''job''" sixteen] f l r
    by (simp add: list_all_iff)
qed

subsection \<open>Deleting a job\<close>

lemma filter_update_first:
  "first_slot P js = Some i \<Longrightarrow> \<not> P x \<Longrightarrow>
   length (filter P (js[i := x])) = length (filter P js) - 1"
proof (induction js arbitrary: i)
  case Nil
  then show ?case by simp
next
  case (Cons j js)
  show ?case
  proof (cases "P j")
    case True
    with Cons.prems show ?thesis by simp
  next
    case False
    with Cons.prems obtain i' where i': "first_slot P js = Some i'" "i = Suc i'"
      by (auto split: if_splits)
    from Cons.IH [OF i'(1) Cons.prems(2)] False i'(2) show ?thesis by simp
  qed
qed

lemma deletejob_found:
  assumes "getjobpid (jobs w) p = Some i"
  shows "deletejob w p = (1, w\<lparr>jobs := (jobs w)[i := clearjob (jobs w ! i)],
                               nextjid := maxjid ((jobs w)[i := clearjob (jobs w ! i)]) + 1\<rparr>)"
  using assms by (auto simp: getjobpid_def deletejob_def Let_def split: if_splits)

lemma addjob_into_slot:
  assumes "1 \<le> p" and "first_slot (\<lambda>j. pid j = 0) (jobs w) = Some k"
  shows "addjob w p st c =
     (1, w\<lparr>jobs := (jobs w)[k := (jobs w ! k)\<lparr>pid := p, state := st, jid := nextjid w, cmdline := c\<rparr>],
           nextjid := (if nextjid w + 1 > int MAXJOBS then 1 else nextjid w + 1)\<rparr>)"
  using assms by (simp add: addjob_def)

lemma first_slot_intro:
  "i < length js \<Longrightarrow> P (js ! i) \<Longrightarrow> \<forall>k<i. \<not> P (js ! k) \<Longrightarrow> first_slot P js = Some i"
proof (induction js arbitrary: i)
  case Nil
  then show ?case by simp
next
  case (Cons j js)
  show ?case
  proof (cases i)
    case 0
    with Cons.prems show ?thesis by simp
  next
    case (Suc i')
    with Cons.prems have "\<not> P j" by auto
    moreover from Suc Cons.prems have "first_slot P js = Some i'"
      by (intro Cons.IH) auto
    ultimately show ?thesis using Suc by simp
  qed
qed

lemma maxjid_from_bounded: "\<forall>j\<in>set js. jid j \<le> m \<Longrightarrow> maxjid_from m js = m"
  by (induction js arbitrary: m) auto

text \<open>
  C7, as the specification states it: for every process id in the table, after
  \<^verbatim>\<open>deletejob\<close> succeeds \<^verbatim>\<open>getjobpid\<close> does not find it. \<^verbatim>\<open>deletejob\<close>
  clears the first slot that holds the process id: in the table in which 100 has been
  added twice, the deletion succeeds and the lookup finds the second slot.
\<close>

theorem deletejob_duplicate_pid_counterexample:
  "getjobpid (jobs dup_jobs) 100 = Some 0 \<and> fst (deletejob dup_jobs 100) = 1
   \<and> getjobpid (jobs (snd (deletejob dup_jobs 100))) 100 = Some 1"
  by code_simp

text \<open>
  C7, amended: for every process id held by exactly one slot of the table,
  \<^verbatim>\<open>deletejob\<close> succeeds, \<^verbatim>\<open>getjobpid\<close> then finds nothing, the slot is empty,
  a following \<^verbatim>\<open>addjob\<close> of a process id of at least 1 succeeds, and it fills that
  very slot when the slots before it are taken. When the table holds only the job of
  process id 100, added to the initialised table, deleting 100 leaves a table without
  100 and \<^verbatim>\<open>maxjid\<close> is 0.
\<close>

theorem deletejob_frees_slot:
  assumes "getjobpid (jobs w) p = Some i"
    and "length (filter (\<lambda>j. pid j = p) (jobs w)) = 1"
    and "1 \<le> p'"
  shows "fst (deletejob w p) = 1
    \<and> getjobpid (jobs (snd (deletejob w p))) p = None
    \<and> pid (jobs (snd (deletejob w p)) ! i) = 0
    \<and> fst (addjob (snd (deletejob w p)) p' st c) = 1
    \<and> ((\<forall>k<i. pid (jobs w ! k) \<noteq> 0) \<longrightarrow>
         jobs (snd (addjob (snd (deletejob w p)) p' st c)) ! i
           = \<lparr>pid = p', jid = nextjid (snd (deletejob w p)), state = st, cmdline = c\<rparr>)
    \<and> getjobpid (jobs (snd (deletejob (snd (addjob init_world 100 st c)) 100))) 100 = None
    \<and> maxjid (jobs (snd (deletejob (snd (addjob init_world 100 st c)) 100))) = 0"
proof -
  let ?js = "(jobs w)[i := clearjob (jobs w ! i)]"
  let ?w = "snd (deletejob w p)"
  from assms(1) have p: "1 \<le> p" and fs: "first_slot (\<lambda>j. pid j = p) (jobs w) = Some i"
    by (auto simp: getjobpid_def split: if_splits)
  from first_slot_Some [OF fs] have i: "i < length (jobs w)" and before: "\<forall>k<i. pid (jobs w ! k) \<noteq> p"
    by auto
  have d: "deletejob w p = (1, w\<lparr>jobs := ?js, nextjid := maxjid ?js + 1\<rparr>)"
    by (rule deletejob_found [OF assms(1)])
  then have jw: "jobs ?w = ?js" by simp
  have c1: "fst (deletejob w p) = 1" using d by simp
  have "\<not> pid (clearjob (jobs w ! i)) = p" using p by (simp add: clearjob_def)
  from filter_update_first [OF fs this] assms(2)
  have "filter (\<lambda>j. pid j = p) ?js = []" by simp
  then have "\<forall>j\<in>set ?js. pid j \<noteq> p" by (simp add: filter_empty_conv)
  then have c2: "getjobpid (jobs ?w) p = None"
    by (simp add: getjobpid_def jw first_slot_None)
  have c3: "pid (jobs ?w ! i) = 0" using i by (simp add: jw clearjob_def)
  have "\<not> (\<forall>j\<in>set ?js. pid j \<noteq> 0)"
  proof
    assume a: "\<forall>j\<in>set ?js. pid j \<noteq> 0"
    from i have "?js ! i \<in> set ?js" by (simp add: set_update_memI)
    with a c3 jw show False by auto
  qed
  then obtain k where k: "first_slot (\<lambda>j. pid j = 0) (jobs ?w) = Some k"
    by (cases "first_slot (\<lambda>j. pid j = 0) (jobs ?w)") (auto simp: first_slot_None jw)
  note a = addjob_into_slot [OF assms(3) k, of st c]
  have c4: "fst (addjob ?w p' st c) = 1" using a by simp
  have c5: "(\<forall>k<i. pid (jobs w ! k) \<noteq> 0) \<longrightarrow>
         jobs (snd (addjob ?w p' st c)) ! i
           = \<lparr>pid = p', jid = nextjid ?w, state = st, cmdline = c\<rparr>"
  proof
    assume occ: "\<forall>k<i. pid (jobs w ! k) \<noteq> 0"
    have "first_slot (\<lambda>j. pid j = 0) ?js = Some i"
    proof (rule first_slot_intro)
      show "i < length ?js" using i by simp
      show "pid (?js ! i) = 0" using c3 jw by simp
      show "\<forall>k<i. \<not> pid (?js ! k) = 0" using occ by simp
    qed
    with k jw have "k = i" by simp
    with a i show "jobs (snd (addjob ?w p' st c)) ! i
           = \<lparr>pid = p', jid = nextjid ?w, state = st, cmdline = c\<rparr>"
      by (simp add: jw)
  qed
  let ?z = "\<lparr>pid = 0, jid = 0, state = 0, cmdline = []\<rparr>"
  have "(16::nat) = Suc 15" by simp
  then have "replicate MAXJOBS ?z = ?z # replicate 15 ?z" by (simp only: replicate_Suc)
  then have j0: "jobs init_world = [] @ ?z # replicate 15 ?z" by (simp add: jobs_init_world)
  have j1: "jobs (snd (addjob init_world 100 st c))
        = \<lparr>pid = 100, jid = nextjid init_world, state = st, cmdline = c\<rparr> # replicate 15 ?z"
    using addjob_fills_next [OF _ _ _ j0, of 100 st c] by simp
  then have "getjobpid (jobs (snd (addjob init_world 100 st c))) 100 = Some 0"
    by (simp add: getjobpid_def)
  from deletejob_found [OF this]
  have j2: "jobs (snd (deletejob (snd (addjob init_world 100 st c)) 100)) = ?z # replicate 15 ?z"
    by (simp add: j1 clearjob_def)
  have c6: "getjobpid (jobs (snd (deletejob (snd (addjob init_world 100 st c)) 100))) 100 = None"
    by (simp add: j2 getjobpid_def first_slot_None)
  have c7: "maxjid (jobs (snd (deletejob (snd (addjob init_world 100 st c)) 100))) = 0"
    by (simp add: j2 maxjid_def maxjid_from_bounded)
  from c1 c2 c3 c4 c5 c6 c7 show ?thesis by blast
qed

theorem deletejob_frees_slot_witness:
  "getjobpid (jobs two_jobs) 200 = Some 1
   \<and> length (filter (\<lambda>j. pid j = 200) (jobs two_jobs)) = 1 \<and> (1::int) \<le> 300
   \<and> pid (jobs two_jobs ! 0) \<noteq> 0
   \<and> fst (deletejob two_jobs 200) = 1
   \<and> getjobpid (jobs (snd (deletejob two_jobs 200))) 200 = None
   \<and> fst (addjob (snd (deletejob two_jobs 200)) 300 BG ''c'') = 1
   \<and> jobs (snd (addjob (snd (deletejob two_jobs 200)) 300 BG ''c'')) ! 1
        = \<lparr>pid = 300, jid = 2, state = BG, cmdline = ''c''\<rparr>"
proof -
  have g: "getjobpid (jobs two_jobs) 200 = Some 1" by code_simp
  have u: "length (filter (\<lambda>j. pid j = 200) (jobs two_jobs)) = 1" by code_simp
  have p: "(1::int) \<le> 300" by simp
  have o: "pid (jobs two_jobs ! 0) \<noteq> 0" by code_simp
  have n: "nextjid (snd (deletejob two_jobs 200)) = 2" by code_simp
  show ?thesis
    using deletejob_frees_slot [OF g u p, of BG "''c''"] g u o n by simp
qed

subsection \<open>Unique process ids and a single foreground job\<close>

lemma nonzero_pids_update:
  "set (filter (\<lambda>q. q \<noteq> 0) (map pid (js[i := x])))
     \<subseteq> (if pid x = 0 then {} else {pid x}) \<union> set (filter (\<lambda>q. q \<noteq> 0) (map pid js))"
  using set_update_subset_insert [of js i x] by auto

lemma pids_unique_clear:
  "pids_unique js \<Longrightarrow> pid x = 0 \<Longrightarrow> pids_unique (js[i := x])"
proof (induction js arbitrary: i)
  case Nil
  then show ?case by simp
next
  case (Cons j js)
  show ?case
  proof (cases i)
    case 0
    with Cons.prems show ?thesis by (auto simp: pids_unique_def split: if_splits)
  next
    case (Suc i')
    from Cons.prems have u: "pids_unique js" by (auto simp: pids_unique_def split: if_splits)
    from Cons.IH [OF u Cons.prems(2)] have d: "pids_unique (js[i' := x])" .
    from nonzero_pids_update [of js i' x] Cons.prems(2)
    have "set (filter (\<lambda>q. q \<noteq> 0) (map pid (js[i' := x]))) \<subseteq> set (filter (\<lambda>q. q \<noteq> 0) (map pid js))"
      by simp
    with Cons.prems(1) d Suc show ?thesis
      by (auto simp: pids_unique_def split: if_splits)
  qed
qed

lemma pids_unique_fill:
  "pids_unique js \<Longrightarrow> \<forall>j\<in>set js. pid j \<noteq> pid x \<Longrightarrow> i < length js \<Longrightarrow> pid (js ! i) = 0 \<Longrightarrow>
   pids_unique (js[i := x])"
proof (induction js arbitrary: i)
  case Nil
  then show ?case by simp
next
  case (Cons j js)
  show ?case
  proof (cases i)
    case 0
    with Cons.prems show ?thesis by (auto simp: pids_unique_def)
  next
    case (Suc i')
    from Cons.prems have u: "pids_unique js" by (auto simp: pids_unique_def split: if_splits)
    from Cons.prems Suc have "pids_unique (js[i' := x])"
      by (intro Cons.IH [OF u]) auto
    moreover from nonzero_pids_update [of js i' x]
    have "set (filter (\<lambda>q. q \<noteq> 0) (map pid (js[i' := x])))
            \<subseteq> insert (pid x) (set (filter (\<lambda>q. q \<noteq> 0) (map pid js)))"
      by (auto split: if_splits)
    moreover from Cons.prems have "pid j \<noteq> pid x" by simp
    ultimately show ?thesis using Cons.prems(1) Suc
      by (auto simp: pids_unique_def split: if_splits)
  qed
qed

lemma fg_count_update:
  "length (filter (\<lambda>j. state j = FG) (js[i := x]))
     \<le> length (filter (\<lambda>j. state j = FG) js) + (if state x = FG then 1 else 0)"
proof (induction js arbitrary: i)
  case Nil
  then show ?case by simp
next
  case (Cons j js)
  show ?case
  proof (cases i)
    case 0
    then show ?thesis by simp
  next
    case (Suc i')
    with Cons.IH [of i'] show ?thesis by (cases "state x = FG"; simp)
  qed
qed

lemma deletejob_keeps_invariant:
  assumes "pids_unique (jobs w)" and "one_fg (jobs w)"
  shows "pids_unique (jobs (snd (deletejob w p))) \<and> one_fg (jobs (snd (deletejob w p)))"
proof (cases "getjobpid (jobs w) p")
  case None
  then have "deletejob w p = (0, w)"
    by (auto simp: deletejob_def getjobpid_def split: if_splits)
  with assms show ?thesis by simp
next
  case (Some i)
  let ?x = "clearjob (jobs w ! i)"
  have j: "jobs (snd (deletejob w p)) = (jobs w)[i := ?x]"
    by (simp add: deletejob_found [OF Some])
  have "pids_unique ((jobs w)[i := ?x])"
    by (rule pids_unique_clear [OF assms(1)]) (simp add: clearjob_def)
  moreover from fg_count_update [of "jobs w" i ?x] assms(2) have "one_fg ((jobs w)[i := ?x])"
    by (simp add: one_fg_def clearjob_def)
  ultimately show ?thesis by (simp add: j)
qed

lemma addjob_keeps_invariant:
  assumes "pids_unique (jobs w)" and "one_fg (jobs w)"
    and "getjobpid (jobs w) p = None"
    and "st = FG \<longrightarrow> first_slot (\<lambda>j. state j = FG) (jobs w) = None"
  shows "pids_unique (jobs (snd (addjob w p st c))) \<and> one_fg (jobs (snd (addjob w p st c)))"
proof (cases "fst (addjob w p st c) = 1")
  case False
  then have "jobs (snd (addjob w p st c)) = jobs w"
    by (auto simp: addjob_def print_def split: if_splits option.splits)
  with assms show ?thesis by simp
next
  case True
  then have p: "1 \<le> p" by (auto simp: addjob_def split: if_splits)
  with True obtain k where k: "first_slot (\<lambda>j. pid j = 0) (jobs w) = Some k"
    by (auto simp: addjob_def split: option.splits)
  let ?x = "(jobs w ! k)\<lparr>pid := p, state := st, jid := nextjid w, cmdline := c\<rparr>"
  have j: "jobs (snd (addjob w p st c)) = (jobs w)[k := ?x]"
    by (simp add: addjob_into_slot [OF p k])
  from assms(3) p have fresh: "\<forall>j\<in>set (jobs w). pid j \<noteq> pid ?x"
    by (simp add: getjobpid_def first_slot_None)
  from first_slot_Some [OF k] have "k < length (jobs w)" "pid (jobs w ! k) = 0" by auto
  from pids_unique_fill [OF assms(1) fresh this] have u: "pids_unique ((jobs w)[k := ?x])" .
  have "one_fg ((jobs w)[k := ?x])"
  proof (cases "st = FG")
    case True
    with assms(4) have "filter (\<lambda>j. state j = FG) (jobs w) = []"
      by (simp add: first_slot_None filter_empty_conv)
    with True fg_count_update [of "jobs w" k ?x] show ?thesis by (simp add: one_fg_def)
  next
    case False
    with fg_count_update [of "jobs w" k ?x] assms(2) show ?thesis by (simp add: one_fg_def)
  qed
  with u show ?thesis by (simp add: j)
qed

lemma admissible_invariant:
  "admissible w xs \<Longrightarrow> pids_unique (jobs w) \<Longrightarrow> one_fg (jobs w) \<Longrightarrow>
   \<forall>v\<in>set (states_of w xs). pids_unique (jobs v) \<and> one_fg (jobs v)"
proof (induction xs arbitrary: w)
  case Nil
  then show ?case by simp
next
  case (Cons x xs)
  show ?case
  proof (cases x)
    case (Add p st c)
    with Cons.prems have a: "getjobpid (jobs w) p = None"
      "st = FG \<longrightarrow> first_slot (\<lambda>j. state j = FG) (jobs w) = None"
      "admissible (exec_op w x) xs" by simp_all
    from addjob_keeps_invariant [OF Cons.prems(2,3) a(1,2), of c] Add
    have "pids_unique (jobs (exec_op w x))" "one_fg (jobs (exec_op w x))" by simp_all
    from Cons.IH [OF a(3) this] Cons.prems(2,3) show ?thesis by simp
  next
    case (Delete p)
    with Cons.prems have a: "admissible (exec_op w x) xs" by simp
    from deletejob_keeps_invariant [OF Cons.prems(2,3), of p] Delete
    have "pids_unique (jobs (exec_op w x))" "one_fg (jobs (exec_op w x))" by simp_all
    from Cons.IH [OF a this] Cons.prems(2,3) show ?thesis by simp
  qed
qed

text \<open>
  C2, as the specification states it: after every sequence of additions and deletions
  the table holds no process id twice and at most one job in state \<^verbatim>\<open>FG\<close>.
  \<^verbatim>\<open>addjob\<close> compares neither the process id nor the state with the table: adding
  100 twice gives two slots of process id 100, and adding two jobs in state \<^verbatim>\<open>FG\<close>
  gives two foreground slots.
\<close>

theorem job_table_invariant_counterexample:
  "\<not> pids_unique (jobs (last (states_of init_world [Add 100 BG ''a'', Add 100 BG ''b''])))
   \<and> \<not> one_fg (jobs (last (states_of init_world [Add 100 FG ''a'', Add 200 FG ''b''])))"
  by code_simp

text \<open>
  C2, amended: on every admissible run from the initialised table, every state reached
  holds no process id other than 0 twice and at most one job in state \<^verbatim>\<open>FG\<close>.
\<close>

theorem job_table_invariant:
  assumes "admissible init_world xs"
  shows "\<forall>v\<in>set (states_of init_world xs). pids_unique (jobs v) \<and> one_fg (jobs v)"
proof -
  have "pids_unique (jobs init_world)" "one_fg (jobs init_world)"
    by (simp_all add: jobs_init_world pids_unique_def one_fg_def)
  from admissible_invariant [OF assms this] show ?thesis .
qed

theorem job_table_invariant_witness:
  "admissible init_world some_ops
   \<and> list_all (\<lambda>v. pids_unique (jobs v) \<and> one_fg (jobs v)) (states_of init_world some_ops)
   \<and> map pid (jobs (last (states_of init_world some_ops))) ! 0 = 300"
proof -
  have a: "admissible init_world some_ops" by code_simp
  have l: "map pid (jobs (last (states_of init_world some_ops))) ! 0 = 300" by code_simp
  show ?thesis using job_table_invariant [OF a] a l by (simp add: list_all_iff)
qed

subsection \<open>Job ids\<close>

lemma Max_insert_max:
  "finite S \<Longrightarrow> Max (insert (max a b) S) = Max (insert a (insert b S))" for a :: int
  by (cases "S = {}") (simp_all add: max.assoc)

lemma maxjid_from_Max: "maxjid_from m js = Max (insert m (jid ` set js))"
proof (induction js arbitrary: m)
  case Nil
  then show ?case by simp
next
  case (Cons j js)
  have "(if jid j > m then jid j else m) = max m (jid j)" by (simp add: max_def)
  then have "maxjid_from m (j # js) = Max (insert (max m (jid j)) (jid ` set js))"
    using Cons.IH [of "max m (jid j)"] by simp
  also have "\<dots> = Max (insert m (insert (jid j) (jid ` set js)))"
    by (rule Max_insert_max) simp
  finally show ?case by simp
qed

lemma maxjid_Max: "maxjid js = Max (insert 0 (jid ` set js))"
  by (simp add: maxjid_def maxjid_from_Max)

lemma maxjid_ge: "j \<in> set js \<Longrightarrow> jid j \<le> maxjid js"
  by (simp add: maxjid_Max)

lemma maxjid_update: "maxjid (js[i := x]) \<le> max (maxjid js) (jid x)"
proof -
  have "\<forall>a\<in>insert 0 (jid ` set (js[i := x])). a \<le> max (maxjid js) (jid x)"
  proof
    fix a assume "a \<in> insert 0 (jid ` set (js[i := x]))"
    then consider "a = 0" | "a = jid x" | j where "j \<in> set js" "a = jid j"
      using set_update_subset_insert [of js i x] by auto
    then show "a \<le> max (maxjid js) (jid x)"
    proof cases
      case 1
      then show ?thesis by (simp add: maxjid_Max le_max_iff_disj)
    next
      case 2
      then show ?thesis by simp
    next
      case 3
      with maxjid_ge [of j js] show ?thesis by simp
    qed
  qed
  then show ?thesis by (simp add: maxjid_Max)
qed

lemma jids_increase_invariant:
  "no_add_after_wrap f w xs \<Longrightarrow> (\<not> f \<longrightarrow> maxjid (jobs w) < nextjid w) \<Longrightarrow> jids_increase w xs"
proof (induction xs arbitrary: f w)
  case Nil
  then show ?case by simp
next
  case (Cons x xs)
  show ?case
  proof (cases x)
    case (Add p st c)
    show ?thesis
    proof (cases "fst (addjob w p st c) = 1")
      case True
      with Cons.prems Add have nf: "\<not> f"
        and rest: "no_add_after_wrap (nextjid w + 1 > int MAXJOBS) (exec_op w x) xs"
        by simp_all
      from nf Cons.prems(2) have inv: "maxjid (jobs w) < nextjid w" by simp
      from True have p: "1 \<le> p" by (auto simp: addjob_def split: if_splits)
      with True obtain k where k: "first_slot (\<lambda>j. pid j = 0) (jobs w) = Some k"
        by (auto simp: addjob_def split: option.splits)
      let ?x = "(jobs w ! k)\<lparr>pid := p, state := st, jid := nextjid w, cmdline := c\<rparr>"
      note a = addjob_into_slot [OF p k, of st c]
      from first_slot_Some [OF k] have kl: "k < length (jobs w)" by simp
      have new: "jid (jobs (snd (addjob w p st c)) ! k) = nextjid w"
        using a kl by simp
      have "\<forall>j\<in>set (jobs w). jid j < nextjid w"
        using inv maxjid_ge [of _ "jobs w"] by fastforce
      then have here: "list_all (\<lambda>j. jid j < jid (jobs (snd (addjob w p st c)) ! k)) (jobs w)"
        by (simp add: new list_all_iff)
      have "maxjid (jobs (exec_op w x)) \<le> max (maxjid (jobs w)) (jid ?x)"
        using a Add maxjid_update [of "jobs w" k ?x] by simp
      with inv have "maxjid (jobs (exec_op w x)) \<le> nextjid w" by simp
      moreover have "nextjid (exec_op w x) = (if nextjid w + 1 > int MAXJOBS then 1 else nextjid w + 1)"
        using a Add by simp
      ultimately have "\<not> (nextjid w + 1 > int MAXJOBS) \<longrightarrow> maxjid (jobs (exec_op w x)) < nextjid (exec_op w x)"
        by simp
      from Cons.IH [OF rest this] here k True Add show ?thesis by simp
    next
      case False
      with Cons.prems Add have rest: "no_add_after_wrap f (exec_op w x) xs" by simp
      from False have "jobs (snd (addjob w p st c)) = jobs w" "nextjid (snd (addjob w p st c)) = nextjid w"
        by (auto simp: addjob_def print_def split: if_splits option.splits)
      with Cons.prems(2) Add have "\<not> f \<longrightarrow> maxjid (jobs (exec_op w x)) < nextjid (exec_op w x)"
        by simp
      from Cons.IH [OF rest this] False Add show ?thesis by simp
    qed
  next
    case (Delete p)
    from Cons.prems Delete
    have rest: "no_add_after_wrap (f \<and> fst (deletejob w p) \<noteq> 1) (exec_op w x) xs" by simp
    show ?thesis
    proof (cases "getjobpid (jobs w) p")
      case None
      then have d: "deletejob w p = (0, w)"
        by (auto simp: deletejob_def getjobpid_def split: if_splits)
      with Cons.prems(2) Delete
      have "\<not> (f \<and> fst (deletejob w p) \<noteq> 1) \<longrightarrow> maxjid (jobs (exec_op w x)) < nextjid (exec_op w x)"
        by simp
      from Cons.IH [OF rest this] d Delete show ?thesis by simp
    next
      case (Some i)
      note d = deletejob_found [OF Some]
      then have n: "nextjid (snd (deletejob w p)) = maxjid (jobs (snd (deletejob w p))) + 1"
        by simp
      with Delete have "\<not> (f \<and> fst (deletejob w p) \<noteq> 1) \<longrightarrow> maxjid (jobs (exec_op w x)) < nextjid (exec_op w x)"
        by simp
      from Cons.IH [OF rest this] n Delete show ?thesis by simp
    qed
  qed
qed

text \<open>
  C3, as the specification states it: on every run in which the table is never full at
  an insertion, each successful addition assigns a job id above every job id in the
  table. In \<open>wrap_ops\<close> the table is never full at an insertion; the sixteenth
  addition assigns 16 and sets the counter back to 1, and the next addition assigns 1
  while the job ids 2 to 16 are in the table.
\<close>

theorem jid_monotone_counterexample:
  "never_full init_world wrap_ops \<and> \<not> jids_increase init_world wrap_ops"
  by code_simp

text \<open>
  C3, amended: on every run from the initialised table in which no addition succeeds
  while the counter is wrapped, each successful addition assigns a job id above every
  job id in the table at that moment, and each successful deletion leaves the counter
  at the largest remaining job id plus 1 (\<open>maxjid_Max\<close>: \<^verbatim>\<open>maxjid\<close> is the largest
  job id of the table, and 0 for a table without a positive one).
\<close>

theorem jid_monotone:
  assumes "no_add_after_wrap False init_world xs"
  shows "jids_increase init_world xs"
proof -
  have "maxjid (jobs init_world) < nextjid init_world"
    by (simp add: jobs_init_world maxjid_def maxjid_from_bounded init_world_def initjobs_def clearjob_def)
  with jids_increase_invariant [OF assms] show ?thesis by simp
qed

theorem jid_monotone_witness:
  "no_add_after_wrap False init_world some_ops \<and> jids_increase init_world some_ops
   \<and> map jid (jobs (last (states_of init_world some_ops))) ! 0 = 3"
proof -
  have a: "no_add_after_wrap False init_world some_ops" by code_simp
  have l: "map jid (jobs (last (states_of init_world some_ops))) ! 0 = 3" by code_simp
  show ?thesis using jid_monotone [OF a] a l by simp
qed

section \<open>Properties of resuming a job\<close>

text \<open>
  When no signal arrives during the command, \<^verbatim>\<open>bg\<close> on a job that is found sends
  \<^verbatim>\<open>SIGCONT\<close> to its process group, prints its line, sets its state to \<^verbatim>\<open>BG\<close>
  and returns.
\<close>

lemma do_bgfg_bg_undisturbed:
  assumes "parse_id a = Some (is_jid, ident)"
    and "(if is_jid then getjobjid (jobs w) ident else getjobpid (jobs w) ident) = Some i"
  shows "do_bgfg ''bg'' [a] [] w =
       Inr (w\<lparr>sent := sent w @ [(- pid (jobs w ! i), SIGCONT)],
              out := out w @ [(Stdout, ''['' @ show_int (jid (jobs w ! i)) @ ''] (''
                                  @ show_int (pid (jobs w ! i)) @ '') '' @ cmdline (jobs w ! i))],
              jobs := (jobs w)[i := (jobs w ! i)\<lparr>state := BG\<rparr>]\<rparr>, [])"
  using assms by (simp add: do_bgfg_def kill_def print_def)

text \<open>
  C5: \<^verbatim>\<open>fg\<close> should block the caller until the job is no longer in the table or no
  longer in state \<^verbatim>\<open>FG\<close>. With \<^verbatim>\<open>fg %2\<close> typed on the table of \<open>two_jobs\<close>,
  let child 200 exit and its \<^verbatim>\<open>SIGCHLD\<close> be handled between the check of
  \<^verbatim>\<open>waitfg\<close> and its call of \<^verbatim>\<open>pause()\<close>, with no signal after it: the handler
  removes job 200 from the table, and the command does not return. The same signal
  arriving while the shell is suspended in \<^verbatim>\<open>pause()\<close> makes the command return.
\<close>

theorem waitfg_lost_wakeup:
  "do_bgfg ''fg'' [''%2''] [(AfterCheck, child_event (200, WExited 0))] two_jobs = Inl Blocked
   \<and> waiting fg_started 200
   \<and> (case child_event (200, WExited 0) fg_started of
         Inl e \<Rightarrow> False
       | Inr v \<Rightarrow> getjobpid (jobs v) 200 = None)
   \<and> (case do_bgfg ''fg'' [''%2''] [(InPause, child_event (200, WExited 0))] two_jobs of
         Inl e \<Rightarrow> False
       | Inr (v, rest) \<Rightarrow> getjobpid (jobs v) 200 = None \<and> length rest = 0)"
proof -
  have a: "(case do_bgfg ''fg'' [''%2''] [(AfterCheck, child_event (200, WExited 0))] two_jobs of
              Inl e \<Rightarrow> e = Blocked | Inr r \<Rightarrow> False)"
    by code_simp
  have b: "waiting fg_started 200" by code_simp
  have c: "(case child_event (200, WExited 0) fg_started of
         Inl e \<Rightarrow> False
       | Inr v \<Rightarrow> getjobpid (jobs v) 200 = None)"
    by code_simp
  have d: "(case do_bgfg ''fg'' [''%2''] [(InPause, child_event (200, WExited 0))] two_jobs of
         Inl e \<Rightarrow> False
       | Inr (v, rest) \<Rightarrow> getjobpid (jobs v) 200 = None \<and> length rest = 0)"
    by code_simp
  from a have "do_bgfg ''fg'' [''%2''] [(AfterCheck, child_event (200, WExited 0))] two_jobs
                 = Inl Blocked"
    by (cases "do_bgfg ''fg'' [''%2''] [(AfterCheck, child_event (200, WExited 0))] two_jobs")
      simp_all
  with b c d show ?thesis by blast
qed

end
